theory Spec2Isabelle
  imports Main "HOL-Library.Sublist"
begin

section \<open>Go strings and the library functions the package calls\<close>

text \<open>
  A Go \<open>string\<close> is a sequence of bytes; it is modelled as \<open>string\<close> (a list of 8-bit
  \<open>char\<close>s), so \<open>length\<close> is Go's \<open>len\<close> and \<open>drop n\<close> is the slice \<open>s[n:]\<close> when
  \<open>n \<le> len(s)\<close>. Go's \<open>int\<close> is taken to be 64 bits wide.
\<close>

definition sp :: char where "sp = CHR 0x20"
definition nl :: char where "nl = CHR 0x0A"
definition colon :: char where "colon = CHR 0x3A"
definition bslash :: char where "bslash = CHR 0x5C"
definition dquote :: char where "dquote = CHR 0x22"

definition HasPrefix :: "string \<Rightarrow> string \<Rightarrow> bool" where
  "HasPrefix s p = prefix p s"

definition HasSuffix :: "string \<Rightarrow> string \<Rightarrow> bool" where
  "HasSuffix s p = suffix p s"

definition TrimPrefix :: "string \<Rightarrow> string \<Rightarrow> string" where
  "TrimPrefix s p = (if HasPrefix s p then drop (length p) s else s)"

text \<open>
  \<open>unicode.IsSpace\<close>: the code points U+0009..U+000D, U+0020, U+0085, U+00A0, U+1680,
  U+2000..U+200A, U+2028, U+2029, U+202F, U+205F and U+3000, each given here by its UTF-8
  encoding. A byte sequence that is not one of these encodings decodes to a rune that is
  not white space (an invalid byte decodes to U+FFFD of width 1).
\<close>

definition space_runes :: "string list" where
  "space_runes =
     [[CHR 0x09], [CHR 0x0A], [CHR 0x0B], [CHR 0x0C], [CHR 0x0D], [CHR 0x20],
      [CHR 0xC2, CHR 0x85], [CHR 0xC2, CHR 0xA0],
      [CHR 0xE1, CHR 0x9A, CHR 0x80],
      [CHR 0xE2, CHR 0x80, CHR 0x80], [CHR 0xE2, CHR 0x80, CHR 0x81],
      [CHR 0xE2, CHR 0x80, CHR 0x82], [CHR 0xE2, CHR 0x80, CHR 0x83],
      [CHR 0xE2, CHR 0x80, CHR 0x84], [CHR 0xE2, CHR 0x80, CHR 0x85],
      [CHR 0xE2, CHR 0x80, CHR 0x86], [CHR 0xE2, CHR 0x80, CHR 0x87],
      [CHR 0xE2, CHR 0x80, CHR 0x88], [CHR 0xE2, CHR 0x80, CHR 0x89],
      [CHR 0xE2, CHR 0x80, CHR 0x8A],
      [CHR 0xE2, CHR 0x80, CHR 0xA8], [CHR 0xE2, CHR 0x80, CHR 0xA9],
      [CHR 0xE2, CHR 0x80, CHR 0xAF], [CHR 0xE2, CHR 0x81, CHR 0x9F],
      [CHR 0xE3, CHR 0x80, CHR 0x80]]"

text \<open>\<open>strip_rune rs s\<close> removes one leading element of \<open>rs\<close> from \<open>s\<close>, if there is one.\<close>

fun strip_rune :: "string list \<Rightarrow> string \<Rightarrow> string option" where
  "strip_rune [] s = None"
| "strip_rune (e # es) s =
     (if e \<noteq> [] \<and> prefix e s then Some (drop (length e) s) else strip_rune es s)"

text \<open>
  \<open>strings.TrimLeftFunc(s, unicode.IsSpace)\<close> is \<open>trim_runes space_runes s\<close>: leading
  white-space runes are dropped until a rune that is not white space.
\<close>

function trim_runes :: "string list \<Rightarrow> string \<Rightarrow> string" where
  "trim_runes rs s = (case strip_rune rs s of None \<Rightarrow> s | Some r \<Rightarrow> trim_runes rs r)"
  by pat_completeness auto
termination
proof (relation "measure (\<lambda>(rs, s). length s)")
  show "wf (measure (\<lambda>(rs, s). length s))" by simp
next
  fix rs :: "string list" and s r :: string
  assume "strip_rune rs s = Some r"
  then have "length r < length s"
    by (induction rs) (auto split: if_splits simp: prefix_def)
  then show "((rs, r), (rs, s)) \<in> measure (\<lambda>(rs, s). length s)" by simp
qed

declare trim_runes.simps [simp del]

definition TrimLeft :: "string \<Rightarrow> string" where
  "TrimLeft s = trim_runes space_runes s"

text \<open>
  \<open>strings.TrimRightFunc(s, unicode.IsSpace)\<close> drops trailing white-space runes; on the
  reversed string these are the reversed encodings at the front.
\<close>

definition TrimRight :: "string \<Rightarrow> string" where
  "TrimRight s = rev (trim_runes (map rev space_runes) (rev s))"

text \<open>\<open>strings.TrimSpace\<close>: \<open>TrimRightFunc(TrimLeftFunc(s, IsSpace), IsSpace)\<close>.\<close>

definition TrimSpace :: "string \<Rightarrow> string" where
  "TrimSpace s = TrimRight (TrimLeft s)"

text \<open>\<open>strings.Index\<close>: the position of the first occurrence of \<open>sep\<close>, \<open>None\<close> for -1.\<close>

fun Index :: "string \<Rightarrow> string \<Rightarrow> nat option" where
  "Index [] sep = (if sep = [] then Some 0 else None)"
| "Index (c # cs) sep =
     (if prefix sep (c # cs) then Some 0 else map_option Suc (Index cs sep))"

text \<open>
  \<open>strings.SplitN(s, sep, n)\<close> for a non-empty separator and \<open>n \<ge> 0\<close> (the package only
  calls it with the separators \<open>" "\<close> and \<open>":"\<close> and \<open>n = 2\<close>): at most \<open>n\<close> pieces, the
  last one the unsplit remainder.
\<close>

fun SplitN :: "string \<Rightarrow> string \<Rightarrow> nat \<Rightarrow> string list" where
  "SplitN s sep 0 = []"
| "SplitN s sep (Suc 0) = [s]"
| "SplitN s sep (Suc (Suc k)) =
     (case Index s sep of
        None \<Rightarrow> [s]
      | Some m \<Rightarrow> take m s # SplitN (drop (m + length sep) s) sep (Suc k))"

text \<open>
  \<open>strings.ReplaceAll(s, old, new)\<close> for a non-empty \<open>old\<close> (the only use in the package):
  the non-overlapping occurrences of \<open>old\<close>, found from left to right, are replaced.
  For an empty \<open>old\<close> the definition returns \<open>s\<close>; Go would insert \<open>new\<close> between runes.
\<close>

fun ReplaceAll :: "string \<Rightarrow> string \<Rightarrow> string \<Rightarrow> string" where
  "ReplaceAll [] old new = []"
| "ReplaceAll (c # cs) old new =
     (if old \<noteq> [] \<and> prefix old (c # cs)
      then new @ ReplaceAll (drop (length old) (c # cs)) old new
      else c # ReplaceAll cs old new)"

subsection \<open>strconv.Atoi\<close>

datatype num_err = ErrSyntax | ErrRange

definition is_digit :: "char \<Rightarrow> bool" where
  "is_digit c = ((48::int) \<le> of_char c \<and> (of_char c :: int) \<le> 57)"

definition digit_val :: "char \<Rightarrow> int" where
  "digit_val c = of_char c - 48"

text \<open>
  \<open>strconv.ParseUint(s, 10, 64)\<close> on a non-empty string: a byte that is not a decimal digit
  is a syntax error, a value above \<open>2^64 - 1\<close> a range error, whichever comes first from
  the left. The accumulator is an \<open>int\<close> that the two range checks keep below \<open>2^64\<close>.
\<close>

fun parse_digits :: "int \<Rightarrow> string \<Rightarrow> num_err + int" where
  "parse_digits n [] = Inr n"
| "parse_digits n (c # cs) =
     (if \<not> is_digit c then Inl ErrSyntax
      else if n \<ge> (2 ^ 64 - 1) div 10 + 1 then Inl ErrRange
      else if n * 10 + digit_val c > 2 ^ 64 - 1 then Inl ErrRange
      else parse_digits (n * 10 + digit_val c) cs)"

definition ParseUint :: "string \<Rightarrow> num_err + int" where
  "ParseUint s = (if s = [] then Inl ErrSyntax else parse_digits 0 s)"

text \<open>
  \<open>strconv.Atoi\<close> (\<open>ParseInt(s, 10, 0)\<close> with a 64-bit \<open>int\<close>): an optional sign, then
  decimal digits; the value must lie in \<open>[-2^63, 2^63 - 1]\<close>.
\<close>

definition Atoi :: "string \<Rightarrow> num_err + int" where
  "Atoi s =
     (case s of
        [] \<Rightarrow> Inl ErrSyntax
      | c # cs \<Rightarrow>
          (let neg = (c = CHR ''-'');
               body = (if c = CHR ''+'' \<or> c = CHR ''-'' then cs else s)
           in case ParseUint body of
                Inl e \<Rightarrow> Inl e
              | Inr un \<Rightarrow>
                  if \<not> neg \<and> un \<ge> 2 ^ 63 then Inl ErrRange
                  else if neg \<and> un > 2 ^ 63 then Inl ErrRange
                  else Inr (if neg then - un else un)))"

section \<open>Errors, panics and replies\<close>

datatype error =
    EOF
  | WriteError
  | NumError string string num_err
  | Errorf string string
  | ErrorfV string error
  | Wrap error string

datatype panic =
    SliceBoundsOutOfRange nat nat
  | NilPointerDereference

text \<open>
  What a call does: it panics, it returns a non-nil error, or it returns a value with a
  nil error.
\<close>

datatype 'a outcome = Panics panic | Fails error | Returns 'a

record AgiResponse =
  Status :: int
  Result :: int
  Data :: string
  Raw :: string
  EndPos :: int
  Digits :: string
  Timeout :: bool

definition zero_response :: AgiResponse where
  "zero_response =
     \<lparr>Status = 0, Result = 0, Data = [], Raw = [], EndPos = 0, Digits = [], Timeout = False\<rparr>"

section \<open>The reply parser\<close>

text \<open>
  \<open>parseResponse\<close>. The slice expression \<open>line[4:]\<close> panics when \<open>len(line) < 4\<close>.
\<close>

definition parseResponse :: "string \<Rightarrow> AgiResponse outcome" where
  "parseResponse line0 =
     (let line = TrimSpace line0 in
      if \<not> HasPrefix line ''200'' then Fails (Errorf ''invalid response: %s'' line)
      else if length line < 4 then Panics (SliceBoundsOutOfRange 4 (length line))
      else
        let parts = SplitN (drop 4 line) [sp] 2 in
        if length parts \<noteq> 2 then Fails (Errorf ''invalid response format: %s'' line)
        else
          case Atoi (parts ! 0) of
            Inl e \<Rightarrow> Fails (Wrap (NumError ''Atoi'' (parts ! 0) e) ''failed to parse result'')
          | Inr result \<Rightarrow>
              let resp = zero_response\<lparr>Status := 1, Result := result, Raw := line\<rparr> in
              Returns (if length parts > 1 then resp\<lparr>Data := TrimSpace (parts ! 1)\<rparr>
                       else resp))"

text \<open>\<open>ParseAGIResult\<close> of the utility file: the result code and the data.\<close>

definition ParseAGIResult :: "string \<Rightarrow> (int \<times> string) outcome" where
  "ParseAGIResult s0 =
     (if \<not> HasPrefix s0 ''200'' then Fails (Errorf ''invalid AGI response: %s'' s0)
      else
        let s1 = TrimPrefix s0 ''200 '' in
        if \<not> HasPrefix s1 ''result='' then Fails (Errorf ''invalid AGI response format: %s'' s1)
        else
          let s2 = TrimPrefix s1 ''result='';
              parts = SplitN s2 [sp] 2
          in case Atoi (parts ! 0) of
               Inl e \<Rightarrow>
                 Fails (ErrorfV ''failed to parse result code: %v'' (NumError ''Atoi'' (parts ! 0) e))
             | Inr result \<Rightarrow>
                 Returns (result,
                   if length parts > 1 then
                     (let data = TrimSpace (parts ! 1) in
                      if HasPrefix data ''('' \<and> HasSuffix data '')''
                      then take (length data - 1 - 1) (drop 1 data)
                      else data)
                   else []))"

section \<open>Formatting\<close>

text \<open>The verb \<open>%d\<close> of \<open>fmt.Sprintf\<close> on an \<open>int\<close>: the decimal digits, with a sign.\<close>

function dec :: "int \<Rightarrow> string" where
  "dec n = (if n < 10 then [char_of (48 + n)] else dec (n div 10) @ [char_of (48 + n mod 10)])"
  by pat_completeness auto
termination
  by (relation "measure nat") auto

declare dec.simps [simp del]

definition Itoa :: "int \<Rightarrow> string" where
  "Itoa n = (if n < 0 then CHR ''-'' # dec (- n) else dec n)"

text \<open>
  The conversion \<open>string(n)\<close> of an \<open>int\<close>: the UTF-8 encoding of the code point \<open>n\<close>,
  and of U+FFFD when \<open>n\<close> is not a valid code point.
\<close>

definition rune_string :: "int \<Rightarrow> string" where
  "rune_string r =
     (if 0 \<le> r \<and> r \<le> 0x7F then [char_of r]
      else if 0 \<le> r \<and> r \<le> 0x7FF then [char_of (0xC0 + r div 64), char_of (0x80 + r mod 64)]
      else if r < 0 \<or> r > 0x10FFFF \<or> (0xD800 \<le> r \<and> r \<le> 0xDFFF)
        then [CHR 0xEF, CHR 0xBF, CHR 0xBD]
      else if r \<le> 0xFFFF
        then [char_of (0xE0 + r div 4096), char_of (0x80 + (r div 64) mod 64),
              char_of (0x80 + r mod 64)]
      else [char_of (0xF0 + r div 262144), char_of (0x80 + (r div 4096) mod 64),
            char_of (0x80 + (r div 64) mod 64), char_of (0x80 + r mod 64)])"

section \<open>The session\<close>

text \<open>
  The transport. \<open>reader\<close> holds the bytes the buffered reader has not handed out yet (a
  finite stream, as the \<open>strings.Reader\<close> of the package's tests; at its end every read
  returns \<open>io.EOF\<close>). A \<open>writer\<close> either accepts every write or fails every write.
\<close>

datatype writer = Open string | Broken

record Context =
  cancelled :: bool
  deadline :: "int option"

datatype cancel_func = CancelCtx

text \<open>
  \<open>ctx\<close> and \<open>cancelFunc\<close> are \<open>None\<close> when the struct field is nil. The mutex is not
  modelled: one caller at a time. \<open>stderr\<close> is the process's diagnostic stream, which
  debug mode writes to; it is carried in the record though it is a global in the source.
\<close>

record AgiSession =
  reader :: string
  writer :: writer
  env :: "string \<rightharpoonup> string"
  variables :: "string \<rightharpoonup> string"
  debugMode :: bool
  timeout :: int
  ctx :: "Context option"
  cancelFunc :: "cancel_func option"
  stderr :: string

text \<open>
  \<open>bufio.Reader.ReadString(delim)\<close>: the bytes up to and including the first \<open>delim\<close>;
  when the stream ends first, the bytes read so far and the error.
\<close>

definition ReadString :: "string \<Rightarrow> char \<Rightarrow> string \<times> error option \<times> string" where
  "ReadString buf d =
     (if d \<in> set buf
      then (takeWhile (\<lambda>c. c \<noteq> d) buf @ [d], None, drop 1 (dropWhile (\<lambda>c. c \<noteq> d) buf))
      else (buf, Some EOF, []))"

text \<open>\<open>AgiSession.readEnvironment\<close>: the error returned (\<open>None\<close> for nil) and the session.\<close>

function readEnvironment :: "AgiSession \<Rightarrow> error option \<times> AgiSession" where
  "readEnvironment s =
     (case ReadString (reader s) nl of
        (line0, Some err, rest) \<Rightarrow>
          (Some (Wrap err ''failed to read environment line''), s\<lparr>reader := rest\<rparr>)
      | (line0, None, rest) \<Rightarrow>
          (let line = TrimSpace line0 in
           if line = [] then (None, s\<lparr>reader := rest\<rparr>)
           else
             let parts = SplitN line [colon] 2 in
             if length parts \<noteq> 2
             then (Some (Errorf ''invalid environment line: %s'' line), s\<lparr>reader := rest\<rparr>)
             else
               let key = TrimSpace (parts ! 0);
                   val = TrimSpace (parts ! 1)
               in readEnvironment (s\<lparr>reader := rest, env := (env s)(key \<mapsto> val)\<rparr>)))"
  by pat_completeness auto
termination
proof -
  have shorter: "length (dropWhile (\<lambda>c. c \<noteq> d) buf) - Suc 0 < length buf"
    if "d \<in> set buf" for d :: char and buf
  proof -
    from that have "dropWhile (\<lambda>c. c \<noteq> d) buf \<noteq> []" by simp
    then have "length (dropWhile (\<lambda>c. c \<noteq> d) buf) - Suc 0
                 < length (dropWhile (\<lambda>c. c \<noteq> d) buf)" by simp
    also have "\<dots> \<le> length buf" by (rule length_dropWhile_le)
    finally show ?thesis .
  qed
  show ?thesis
    by (relation "measure (\<lambda>s. length (reader s))")
       (auto simp: ReadString_def shorter split: if_splits)
qed

declare readEnvironment.simps [simp del]

text \<open>\<open>NewWithContext\<close>, reading the process's standard input \<open>stdin\<close>.\<close>

definition NewWithContext :: "Context \<Rightarrow> string \<Rightarrow> AgiSession outcome" where
  "NewWithContext parent stdin =
     (let s = \<lparr>reader = stdin, writer = Open [], env = Map.empty, variables = Map.empty,
                debugMode = False, timeout = 30 * 1000000000,
                ctx = Some \<lparr>cancelled = cancelled parent, deadline = deadline parent\<rparr>,
                cancelFunc = Some CancelCtx, stderr = []\<rparr>
      in case readEnvironment s of
           (Some err, s') \<Rightarrow> Fails (Wrap err ''failed to read AGI environment'')
         | (None, s') \<Rightarrow> Returns s')"

definition NewAgiSession :: "string \<Rightarrow> AgiSession outcome" where
  "NewAgiSession stdin = NewWithContext \<lparr>cancelled = False, deadline = None\<rparr> stdin"

text \<open>\<open>AgiSession.execute\<close>: one command line out, one reply line in.\<close>

definition execute :: "AgiSession \<Rightarrow> string \<Rightarrow> AgiResponse outcome \<times> AgiSession" where
  "execute s command =
     (let s1 = (if debugMode s then s\<lparr>stderr := stderr s @ ''AGI Command: '' @ command @ [nl]\<rparr>
                else s)
      in case writer s1 of
           Broken \<Rightarrow> (Fails (Wrap WriteError ''failed to send command''), s1)
         | Open out \<Rightarrow>
             (let s2 = s1\<lparr>writer := Open (out @ command @ [nl])\<rparr> in
              case ReadString (reader s2) nl of
                (line, Some err, rest) \<Rightarrow>
                  (Fails (Wrap err ''failed to read response''), s2\<lparr>reader := rest\<rparr>)
              | (line, None, rest) \<Rightarrow>
                  (let s3 = s2\<lparr>reader := rest\<rparr>;
                       s4 = (if debugMode s3
                             then s3\<lparr>stderr := stderr s3 @ ''AGI Response: '' @ line\<rparr>
                             else s3)
                   in (parseResponse line, s4))))"

text \<open>
  The convenience operations that wait for input. Each returns the string and the error
  of the source as an \<open>outcome\<close>: \<open>Returns v\<close> is \<open>(v, nil)\<close>, \<open>Fails e\<close> is \<open>("", e)\<close>.
\<close>

definition digit_reply :: "AgiResponse outcome \<times> AgiSession \<Rightarrow> string outcome \<times> AgiSession" where
  "digit_reply r =
     (case r of
        (Panics p, s') \<Rightarrow> (Panics p, s')
      | (Fails err, s') \<Rightarrow> (Fails err, s')
      | (Returns resp, s') \<Rightarrow>
          if Result resp = - 1 then (Returns [], s')
          else (Returns (rune_string (Result resp)), s'))"

definition GetOption :: "AgiSession \<Rightarrow> string \<Rightarrow> string \<Rightarrow> int \<Rightarrow> string outcome \<times> AgiSession" where
  "GetOption s filename escapeDigits tmo =
     digit_reply (execute s
       (''GET OPTION '' @ filename @ [sp, dquote] @ escapeDigits @ [dquote, sp] @ Itoa tmo))"

definition SayNumber :: "AgiSession \<Rightarrow> int \<Rightarrow> string \<Rightarrow> string outcome \<times> AgiSession" where
  "SayNumber s number escapeDigits =
     digit_reply (execute s
       (''SAY NUMBER '' @ Itoa number @ [sp, dquote] @ escapeDigits @ [dquote]))"

definition RecordFile ::
  "AgiSession \<Rightarrow> string \<Rightarrow> string \<Rightarrow> string \<Rightarrow> int \<Rightarrow> int \<Rightarrow> int \<Rightarrow> int
     \<Rightarrow> string outcome \<times> AgiSession" where
  "RecordFile s filename format escapeDigits tmo offset beep silence =
     digit_reply (execute s
       (''RECORD FILE '' @ filename @ [sp] @ format @ [sp, dquote] @ escapeDigits @ [dquote, sp]
          @ Itoa tmo @ [sp] @ Itoa offset @ [sp] @ Itoa beep @ [sp] @ Itoa silence))"

text \<open>
  \<open>AgiSession.Close\<close>: calling a nil \<open>cancelFunc\<close> panics; the cancel function of
  \<open>NewWithContext\<close> cancels the session's context. The error returned is always nil.
\<close>

definition Close :: "AgiSession \<Rightarrow> AgiSession outcome" where
  "Close s =
     (case cancelFunc s of
        None \<Rightarrow> Panics NilPointerDereference
      | Some CancelCtx \<Rightarrow> Returns (s\<lparr>ctx := map_option (\<lambda>c. c\<lparr>cancelled := True\<rparr>) (ctx s)\<rparr>))"

definition SetDebug :: "AgiSession \<Rightarrow> bool \<Rightarrow> AgiSession" where
  "SetDebug s enabled = s\<lparr>debugMode := enabled\<rparr>"

definition SetTimeout :: "AgiSession \<Rightarrow> int \<Rightarrow> AgiSession" where
  "SetTimeout s t = s\<lparr>timeout := t\<rparr>"

text \<open>\<open>AgiSession.GetEnv\<close>: a Go map yields the zero value \<open>""\<close> for a missing key.\<close>

definition GetEnv :: "AgiSession \<Rightarrow> string \<Rightarrow> string" where
  "GetEnv s key = (case env s key of None \<Rightarrow> [] | Some v \<Rightarrow> v)"

section \<open>The connection worker\<close>

text \<open>
  What one worker does, in order: the effects on the connection, on standard output, on
  the wait group, and whether the handler ran. A panic of the handler runs the deferred
  calls and then leaves the worker.
\<close>

datatype event =
    SetDeadline int
  | Printf string error
  | HandlerCalled
  | TimeoutCtxCancelled
  | ConnClosed
  | WgDone
  | WorkerPanicked panic

record FastAGIServer =
  handler :: "Context \<Rightarrow> AgiSession \<Rightarrow> unit outcome"
  wg :: int
  server_ctx :: Context

text \<open>The session literal of \<open>handleConnection\<close>: \<open>ctx\<close> and \<open>cancelFunc\<close> are not set.\<close>

definition worker_session :: "string \<Rightarrow> AgiSession" where
  "worker_session conn_in =
     \<lparr>reader = conn_in, writer = Open [], env = Map.empty, variables = Map.empty,
      debugMode = False, timeout = 30 * 1000000000, ctx = None, cancelFunc = None,
      stderr = []\<rparr>"

definition handleConnection :: "FastAGIServer \<Rightarrow> string \<Rightarrow> event list \<times> FastAGIServer" where
  "handleConnection srv conn_in =
     (let session = worker_session conn_in;
          srv' = srv\<lparr>wg := wg srv - 1\<rparr>
      in case readEnvironment session of
           (Some err, s') \<Rightarrow>
             ([SetDeadline (30 * 1000000000), Printf (''Failed to read environment: %v'' @ [nl]) err,
               ConnClosed, WgDone], srv')
         | (None, s') \<Rightarrow>
             (let c = \<lparr>cancelled = cancelled (server_ctx srv), deadline = Some (timeout s')\<rparr> in
              case handler srv c s' of
                Panics p \<Rightarrow>
                  ([SetDeadline (30 * 1000000000), HandlerCalled, TimeoutCtxCancelled,
                    ConnClosed, WgDone, WorkerPanicked p], srv')
              | Fails err \<Rightarrow>
                  ([SetDeadline (30 * 1000000000), HandlerCalled, Printf (''Handler error: %v'' @ [nl]) err,
                    TimeoutCtxCancelled, ConnClosed, WgDone], srv')
              | Returns u \<Rightarrow>
                  ([SetDeadline (30 * 1000000000), HandlerCalled, TimeoutCtxCancelled,
                    ConnClosed, WgDone], srv')))"

section \<open>Escaping\<close>

definition EscapeString :: "string \<Rightarrow> string" where
  "EscapeString s =
     ReplaceAll (ReplaceAll s [bslash] [bslash, bslash]) [dquote] [bslash, dquote]"

definition UnescapeString :: "string \<Rightarrow> string" where
  "UnescapeString s =
     ReplaceAll (ReplaceAll s [bslash, dquote] [dquote]) [bslash, bslash] [bslash]"

section \<open>Inputs of the properties\<close>

text \<open>
  A header block as it arrives on the transport: each line is a key, a colon, a value and
  the newline that ends the line.
\<close>

definition header_line :: "string \<times> string \<Rightarrow> string" where
  "header_line kv = fst kv @ [colon] @ snd kv @ [nl]"

definition header_block :: "(string \<times> string) list \<Rightarrow> string" where
  "header_block kvs = concat (map header_line kvs)"

text \<open>The mapping of a block: the lines' trimmed keys and values, stored in order.\<close>

definition store_line :: "string \<times> string \<Rightarrow> (string \<rightharpoonup> string) \<Rightarrow> (string \<rightharpoonup> string)" where
  "store_line kv m = m(TrimSpace (fst kv) \<mapsto> TrimSpace (snd kv))"

definition store_block :: "(string \<times> string) list \<Rightarrow> (string \<rightharpoonup> string) \<Rightarrow> (string \<rightharpoonup> string)" where
  "store_block kvs m = fold store_line kvs m"

text \<open>A handler that does nothing but close the session it is given.\<close>

definition closing_handler :: "Context \<Rightarrow> AgiSession \<Rightarrow> unit outcome" where
  "closing_handler c s =
     (case Close s of Panics p \<Rightarrow> Panics p | Fails e \<Rightarrow> Fails e | Returns s' \<Rightarrow> Returns ())"

definition closing_server :: FastAGIServer where
  "closing_server =
     \<lparr>handler = closing_handler, wg = 1, server_ctx = \<lparr>cancelled = False, deadline = None\<rparr>\<rparr>"

section \<open>White-space trimming: lemmas\<close>

subsection \<open>Stripping runes\<close>

lemma strip_rune_SomeD: "strip_rune rs s = Some r \<Longrightarrow> \<exists>e\<in>set rs. e \<noteq> [] \<and> s = e @ r"
  by (induction rs) (auto split: if_splits simp: prefix_def)

lemma strip_rune_None_iff:
  "strip_rune rs s = None \<longleftrightarrow> (\<forall>e\<in>set rs. e \<noteq> [] \<longrightarrow> \<not> prefix e s)"
  by (induction rs) auto

lemma strip_rune_rune:
  assumes pf: "\<forall>e\<in>set rs. \<forall>f\<in>set rs. prefix e f \<longrightarrow> e = f"
    and e: "e \<in> set rs" "e \<noteq> []"
  shows "strip_rune rs (e @ r) = Some r"
proof -
  have "strip_rune rs (e @ r) \<noteq> None"
    using e by (auto simp: strip_rune_None_iff)
  then obtain r' where r': "strip_rune rs (e @ r) = Some r'" by auto
  then obtain f where f: "f \<in> set rs" "f \<noteq> []" "e @ r = f @ r'"
    using strip_rune_SomeD by blast
  from f(3) have "prefix e f \<or> prefix f e"
    by (metis prefixI prefix_same_cases)
  with pf f(1) e(1) have "e = f" by blast
  with f(3) have "r' = r" by simp
  with r' show ?thesis by simp
qed

lemma trim_runes_stuck: "strip_rune rs (trim_runes rs s) = None"
proof (induction rs s rule: trim_runes.induct)
  case (1 rs s)
  show ?case
    apply (subst trim_runes.simps)
    using 1 by (auto split: option.splits)
qed

lemma trim_runes_None: "strip_rune rs s = None \<Longrightarrow> trim_runes rs s = s"
  by (subst trim_runes.simps) simp

lemma trim_runes_Some: "strip_rune rs s = Some r \<Longrightarrow> trim_runes rs s = trim_runes rs r"
  by (subst trim_runes.simps) simp

lemma trim_runes_idem: "trim_runes rs (trim_runes rs s) = trim_runes rs s"
  by (rule trim_runes_None) (rule trim_runes_stuck)

lemma trim_runes_suffix: "suffix (trim_runes rs s) s"
proof (induction rs s rule: trim_runes.induct)
  case (1 rs s)
  show ?case
  proof (cases "strip_rune rs s")
    case None
    then show ?thesis by (simp add: trim_runes_None)
  next
    case (Some r)
    then obtain e where "s = e @ r" using strip_rune_SomeD by blast
    moreover have "suffix (trim_runes rs r) r" using 1 Some by simp
    ultimately show ?thesis using Some by (simp add: trim_runes_Some suffix_append)
  qed
qed

lemma trim_runes_Nil: "trim_runes rs [] = []"
  using trim_runes_suffix [of rs "[]"] by simp

text \<open>A byte that occurs in no rune stops the trimming.\<close>

lemma strip_rune_append_stop:
  assumes "\<forall>e\<in>set rs. c \<notin> set e"
  shows "strip_rune rs (k @ c # r) = map_option (\<lambda>x. x @ c # r) (strip_rune rs k)"
  using assms
proof (induction rs)
  case Nil
  show ?case by simp
next
  case (Cons e es)
  have c: "c \<notin> set e" using Cons.prems by simp
  have p: "prefix e (k @ c # r) \<longleftrightarrow> prefix e k"
  proof
    assume "prefix e (k @ c # r)"
    then have "prefix e k \<or> (\<exists>us. us \<noteq> [] \<and> prefix us (c # r) \<and> e = k @ us)"
      by (auto simp: prefix_append)
    then show "prefix e k"
      using c by (auto simp: prefix_Cons)
  next
    assume "prefix e k" then show "prefix e (k @ c # r)" by (simp add: prefix_prefix)
  qed
  have d: "prefix e k \<Longrightarrow> drop (length e) (k @ c # r) = drop (length e) k @ c # r"
    by (auto simp: prefix_def)
  show ?case using Cons p d by auto
qed

lemma trim_runes_append_stop:
  assumes "\<forall>e\<in>set rs. c \<notin> set e"
  shows "trim_runes rs (k @ c # r) = trim_runes rs k @ c # r"
  using assms
proof (induction rs k rule: trim_runes.induct)
  case (1 rs k)
  show ?case
  proof (cases "strip_rune rs k")
    case None
    then have "strip_rune rs (k @ c # r) = None"
      using 1(2) by (simp add: strip_rune_append_stop)
    then show ?thesis using None by (simp add: trim_runes_None)
  next
    case (Some x)
    then have "strip_rune rs (k @ c # r) = Some (x @ c # r)"
      using 1(2) by (simp add: strip_rune_append_stop)
    then show ?thesis using Some 1 by (simp add: trim_runes_Some)
  qed
qed

subsection \<open>Facts about the white-space runes\<close>

lemma space_runes_prefix_free:
  "\<forall>e\<in>set space_runes. \<forall>f\<in>set space_runes. prefix e f \<longrightarrow> e = f"
  by code_simp

lemma space_runes_suffix_free:
  "\<forall>e\<in>set (map rev space_runes). \<forall>f\<in>set (map rev space_runes). prefix e f \<longrightarrow> e = f"
  by code_simp

lemma space_runes_no_overlap:
  "\<forall>g\<in>set (map rev space_runes). \<forall>e\<in>set (map rev space_runes).
     \<forall>n\<in>set [1..<length g]. \<not> prefix (drop n g) e"
  by code_simp

lemma space_runes_no_colon: "\<forall>e\<in>set space_runes. colon \<notin> set e"
  by code_simp

lemma space_runes_no_colon_rev: "\<forall>e\<in>set (map rev space_runes). colon \<notin> set e"
  by code_simp

lemma nl_rune: "[nl] \<in> set (map rev space_runes)"
  by code_simp


subsection \<open>Trimming on both sides\<close>

lemma trim_runes_append_rune:
  assumes pf: "\<forall>e\<in>set rs. \<forall>f\<in>set rs. prefix e f \<longrightarrow> e = f"
    and no: "\<forall>g\<in>set rs. \<forall>e\<in>set rs. \<forall>n\<in>set [1..<length g]. \<not> prefix (drop n g) e"
    and e: "e \<in> set rs" "e \<noteq> []"
  shows "trim_runes rs (q @ e) = (if trim_runes rs q = [] then [] else trim_runes rs q @ e)"
  using assms
proof (induction rs q rule: trim_runes.induct)
  case (1 rs q)
  show ?case
  proof (cases "strip_rune rs q")
    case (Some q1)
    then obtain f where f: "f \<in> set rs" "f \<noteq> []" "q = f @ q1"
      using strip_rune_SomeD by blast
    have "strip_rune rs (f @ (q1 @ e)) = Some (q1 @ e)"
      using 1(2) f by (intro strip_rune_rune) auto
    then have "trim_runes rs (q @ e) = trim_runes rs (q1 @ e)"
      using f(3) by (simp add: trim_runes_Some)
    moreover have "trim_runes rs q = trim_runes rs q1"
      using Some by (rule trim_runes_Some)
    moreover have "trim_runes rs (q1 @ e)
        = (if trim_runes rs q1 = [] then [] else trim_runes rs q1 @ e)"
      using 1 Some by blast
    ultimately show ?thesis by simp
  next
    case None
    then have tq: "trim_runes rs q = q" by (rule trim_runes_None)
    show ?thesis
    proof (cases "q = []")
      case True
      have "strip_rune rs (e @ []) = Some []"
        using 1(2) 1(4) 1(5) by (intro strip_rune_rune) auto
      then have "trim_runes rs e = []"
        by (simp add: trim_runes_Some trim_runes_Nil)
      then show ?thesis using True tq by simp
    next
      case False
      have "strip_rune rs (q @ e) = None"
        unfolding strip_rune_None_iff
      proof (intro ballI impI notI)
        fix g assume g: "g \<in> set rs" "g \<noteq> []" "prefix g (q @ e)"
        from None g(1,2) have ng: "\<not> prefix g q" by (simp add: strip_rune_None_iff)
        with g(3) obtain us where us: "us \<noteq> []" "prefix us e" "g = q @ us"
          by (auto simp: prefix_append)
        have "Suc 0 \<le> length q" using False by (cases q) simp_all
        moreover have "0 < length us" using us(1) by simp
        moreover have "length g = length q + length us" using us(3) by simp
        ultimately have n: "length q \<in> set [1..<length g]" by simp
        have "drop (length q) g = us" using us(3) by simp
        with 1(3) g(1) 1(4) n us(2) show False by blast
      qed
      then have "trim_runes rs (q @ e) = q @ e" by (rule trim_runes_None)
      then show ?thesis using tq False by simp
    qed
  qed
qed

lemma TrimRight_prefix: "prefix (TrimRight s) s"
  using trim_runes_suffix [of "map rev space_runes" "rev s"]
  by (simp add: TrimRight_def suffix_to_prefix)

lemma TrimLeft_suffix: "suffix (TrimLeft s) s"
  by (simp add: TrimLeft_def trim_runes_suffix)

lemma TrimRight_rune_append:
  assumes "e \<in> set space_runes" "e \<noteq> []"
  shows "TrimRight (e @ r) = (if TrimRight r = [] then [] else e @ TrimRight r)"
proof -
  have "rev e \<in> set (map rev space_runes)" "rev e \<noteq> []" using assms by auto
  from trim_runes_append_rune [OF space_runes_suffix_free space_runes_no_overlap this, of "rev r"]
  show ?thesis by (simp add: TrimRight_def)
qed

lemma TrimRight_stuck_left:
  assumes "strip_rune space_runes s = None"
  shows "strip_rune space_runes (TrimRight s) = None"
  using assms TrimRight_prefix [of s]
  by (meson prefix_order.trans strip_rune_None_iff)

lemma Trim_commute_aux:
  "rs = space_runes \<Longrightarrow> trim_runes rs (TrimRight s) = TrimRight (trim_runes rs s)"
proof (induction rs s rule: trim_runes.induct)
  case (1 rs s)
  show ?case
  proof (cases "strip_rune rs s")
    case None
    then have "strip_rune rs (TrimRight s) = None"
      using 1(2) TrimRight_stuck_left by simp
    then show ?thesis using None by (simp add: trim_runes_None)
  next
    case (Some r)
    then obtain e where e: "e \<in> set rs" "e \<noteq> []" "s = e @ r"
      using strip_rune_SomeD by blast
    have ih: "trim_runes rs (TrimRight r) = TrimRight (trim_runes rs r)"
      using 1 Some by blast
    have tr: "TrimRight s = (if TrimRight r = [] then [] else e @ TrimRight r)"
      using e 1(2) by (simp add: TrimRight_rune_append)
    have "trim_runes rs (TrimRight s) = trim_runes rs (TrimRight r)"
    proof (cases "TrimRight r = []")
      case True
      then show ?thesis using tr by simp
    next
      case False
      have "strip_rune rs (e @ TrimRight r) = Some (TrimRight r)"
        using e 1(2) space_runes_prefix_free by (intro strip_rune_rune) auto
      then show ?thesis using tr False by (simp add: trim_runes_Some)
    qed
    then show ?thesis using ih Some by (simp add: trim_runes_Some)
  qed
qed

lemma Trim_commute: "TrimLeft (TrimRight s) = TrimRight (TrimLeft s)"
  by (simp add: TrimLeft_def Trim_commute_aux)

lemma TrimLeft_idem: "TrimLeft (TrimLeft s) = TrimLeft s"
  by (simp add: TrimLeft_def trim_runes_idem)

lemma TrimRight_idem: "TrimRight (TrimRight s) = TrimRight s"
  by (simp add: TrimRight_def trim_runes_idem)

lemma TrimSpace_TrimLeft: "TrimSpace (TrimLeft s) = TrimSpace s"
  by (simp add: TrimSpace_def TrimLeft_idem)

lemma TrimSpace_TrimRight: "TrimSpace (TrimRight s) = TrimSpace s"
  by (simp add: TrimSpace_def Trim_commute TrimRight_idem)

lemma TrimRight_newline: "TrimRight (s @ [nl]) = TrimRight s"
proof -
  have "strip_rune (map rev space_runes) ([nl] @ rev s) = Some (rev s)"
    using space_runes_suffix_free nl_rune by (intro strip_rune_rune) auto
  then show ?thesis by (simp add: TrimRight_def trim_runes_Some)
qed

lemma TrimSpace_newline: "TrimSpace (s @ [nl]) = TrimSpace s"
proof -
  have "TrimSpace (s @ [nl]) = TrimLeft (TrimRight (s @ [nl]))"
    by (simp add: TrimSpace_def Trim_commute)
  also have "\<dots> = TrimLeft (TrimRight s)" by (simp add: TrimRight_newline)
  finally show ?thesis by (simp add: TrimSpace_def Trim_commute)
qed

lemma TrimLeft_colon: "TrimLeft (k @ colon # r) = TrimLeft k @ colon # r"
  by (simp add: TrimLeft_def trim_runes_append_stop space_runes_no_colon)

lemma TrimRight_colon: "TrimRight (k @ colon # v) = k @ colon # TrimRight v"
  using trim_runes_append_stop [OF space_runes_no_colon_rev, of "rev v" "rev k"]
  by (simp add: TrimRight_def)

lemma TrimSpace_key_value:
  "TrimSpace (k @ colon # v @ [nl]) = TrimLeft k @ colon # TrimRight v"
proof -
  have "TrimSpace (k @ colon # v @ [nl]) = TrimSpace (k @ colon # v)"
    using TrimSpace_newline [of "k @ colon # v"] by simp
  then show ?thesis by (simp add: TrimSpace_def TrimLeft_colon TrimRight_colon)
qed

lemma set_TrimLeft: "set (TrimLeft s) \<subseteq> set s"
  using TrimLeft_suffix [of s] by (rule set_mono_suffix)

lemma set_TrimRight: "set (TrimRight s) \<subseteq> set s"
  using TrimRight_prefix [of s] by (rule set_mono_prefix)

lemma set_TrimSpace: "set (TrimSpace s) \<subseteq> set s"
  using set_TrimLeft [of s] set_TrimRight [of "TrimLeft s"] by (auto simp: TrimSpace_def)

section \<open>Reading the environment: properties\<close>

lemma ReadString_line:
  "nl \<notin> set l \<Longrightarrow> ReadString (l @ nl # rest) nl = (l @ [nl], None, rest)"
proof -
  assume a: "nl \<notin> set l"
  have t: "takeWhile (\<lambda>c. c \<noteq> nl) (l @ nl # rest) = l"
    using a by (subst takeWhile_append2) auto
  have d: "dropWhile (\<lambda>c. c \<noteq> nl) (l @ nl # rest) = nl # rest"
    using a by (subst dropWhile_append2) auto
  show ?thesis by (simp add: ReadString_def t d)
qed

lemma Index_absent: "c \<notin> set a \<Longrightarrow> Index a [c] = None"
  by (induction a) auto

lemma Index_first: "c \<notin> set a \<Longrightarrow> Index (a @ c # b) [c] = Some (length a)"
  by (induction a) auto

lemma SplitN_first_colon:
  "colon \<notin> set a \<Longrightarrow> SplitN (a @ colon # b) [colon] 2 = [a, b]"
  by (simp add: numeral_2_eq_2 Index_first)

lemma SplitN_no_colon:
  "colon \<notin> set a \<Longrightarrow> SplitN a [colon] 2 = [a]"
  by (simp add: numeral_2_eq_2 Index_absent)

lemma readEnvironment_line:
  assumes "colon \<notin> set k" "nl \<notin> set k" "nl \<notin> set v"
  shows "readEnvironment (s\<lparr>reader := header_line (k, v) @ rest\<rparr>)
           = readEnvironment (s\<lparr>reader := rest, env := store_line (k, v) (env s)\<rparr>)"
proof -
  have rd: "ReadString (header_line (k, v) @ rest) nl = (k @ colon # v @ [nl], None, rest)"
    using assms ReadString_line [of "k @ colon # v" rest] by (simp add: header_line_def colon_def nl_def)
  have ck: "colon \<notin> set (TrimLeft k)" using assms(1) set_TrimLeft [of k] by auto
  have sp: "SplitN (TrimLeft k @ colon # TrimRight v) [colon] 2 = [TrimLeft k, TrimRight v]"
    using ck by (rule SplitN_first_colon)
  show ?thesis
    apply (subst readEnvironment.simps)
    apply (simp add: rd TrimSpace_key_value sp TrimSpace_TrimLeft TrimSpace_TrimRight store_line_def)
    done
qed

lemma readEnvironment_blank:
  assumes "nl \<notin> set b" "TrimSpace b = []"
  shows "readEnvironment (s\<lparr>reader := b @ [nl] @ rest\<rparr>) = (None, s\<lparr>reader := rest\<rparr>)"
proof -
  have rd: "ReadString (b @ nl # rest) nl = (b @ [nl], None, rest)"
    using assms(1) ReadString_line [of b rest] by simp
  show ?thesis
    apply (subst readEnvironment.simps)
    apply (simp add: rd TrimSpace_newline assms(2))
    done
qed

lemma readEnvironment_bad:
  assumes "nl \<notin> set bad" "colon \<notin> set bad" "TrimSpace bad \<noteq> []"
  shows "readEnvironment (s\<lparr>reader := bad @ [nl] @ rest\<rparr>)
           = (Some (Errorf ''invalid environment line: %s'' (TrimSpace bad)), s\<lparr>reader := rest\<rparr>)"
proof -
  have rd: "ReadString (bad @ nl # rest) nl = (bad @ [nl], None, rest)"
    using assms(1) ReadString_line [of bad rest] by simp
  have "colon \<notin> set (TrimSpace bad)" using assms(2) set_TrimSpace [of bad] by auto
  then have sp: "SplitN (TrimSpace bad) [colon] 2 = [TrimSpace bad]" by (rule SplitN_no_colon)
  show ?thesis
    apply (subst readEnvironment.simps)
    apply (simp add: rd TrimSpace_newline assms(3) sp)
    done
qed

lemma reader_env_update:
  "(s::AgiSession)\<lparr>env := e, reader := r\<rparr> = s\<lparr>reader := r, env := e\<rparr>"
  by (cases s) simp

lemma readEnvironment_lines:
  assumes "\<forall>kv\<in>set kvs. colon \<notin> set (fst kv) \<and> nl \<notin> set (fst kv) \<and> nl \<notin> set (snd kv)"
  shows "readEnvironment (s\<lparr>reader := header_block kvs @ rest\<rparr>)
           = readEnvironment (s\<lparr>reader := rest, env := store_block kvs (env s)\<rparr>)"
  using assms
proof (induction kvs arbitrary: s)
  case Nil
  show ?case by (simp add: header_block_def store_block_def)
next
  case (Cons kv kvs)
  obtain k v where kv: "kv = (k, v)" by (cases kv)
  have "readEnvironment (s\<lparr>reader := header_block (kv # kvs) @ rest\<rparr>)
      = readEnvironment (s\<lparr>reader := header_line (k, v) @ (header_block kvs @ rest)\<rparr>)"
    by (simp add: header_block_def kv)
  also have "\<dots> = readEnvironment (s\<lparr>reader := header_block kvs @ rest, env := store_line (k, v) (env s)\<rparr>)"
    using Cons.prems kv by (intro readEnvironment_line) auto
  also have "\<dots> = readEnvironment ((s\<lparr>env := store_line (k, v) (env s)\<rparr>)\<lparr>reader := header_block kvs @ rest\<rparr>)"
    by (simp only: reader_env_update)
  also have "\<dots> = readEnvironment ((s\<lparr>env := store_line (k, v) (env s)\<rparr>)
        \<lparr>reader := rest, env := store_block kvs (env (s\<lparr>env := store_line (k, v) (env s)\<rparr>))\<rparr>)"
    using Cons.prems by (intro Cons.IH) auto
  also have "\<dots> = readEnvironment (s\<lparr>reader := rest, env := store_block (kv # kvs) (env s)\<rparr>)"
    by (simp add: store_block_def kv)
  finally show ?case .
qed


lemma store_block_snoc: "store_block (kvs @ [kv]) m = store_line kv (store_block kvs m)"
  by (simp add: store_block_def)

lemma store_block_lookup:
  "store_block kvs m key =
     (case find (\<lambda>kv. TrimSpace (fst kv) = key) (rev kvs) of
        None \<Rightarrow> m key
      | Some kv \<Rightarrow> Some (TrimSpace (snd kv)))"
proof (induction kvs rule: rev_induct)
  case Nil
  show ?case by (simp add: store_block_def)
next
  case (snoc kv kvs)
  then show ?case by (simp add: store_block_snoc store_line_def)
qed

lemma dom_store_block:
  "dom (store_block kvs m) = dom m \<union> (\<lambda>kv. TrimSpace (fst kv)) ` set kvs"
proof (induction kvs rule: rev_induct)
  case Nil
  show ?case by (simp add: store_block_def)
next
  case (snoc kv kvs)
  have "dom (store_block (kvs @ [kv]) m) = insert (TrimSpace (fst kv)) (dom (store_block kvs m))"
    by (simp add: store_block_snoc store_line_def)
  with snoc show ?case by auto
qed

text \<open>
  C4. For a header block of \<open>key: value\<close> lines ended by a blank line, reading the
  environment succeeds; the mapping holds exactly the keys of the lines, each with its
  trimmed value, a later line with the same key replacing the earlier one; and the reader
  stands right after the blank line, with the bytes that follow still unread.
\<close>

theorem readEnvironment_header_block:
  assumes lines: "\<forall>kv\<in>set kvs. colon \<notin> set (fst kv) \<and> nl \<notin> set (fst kv) \<and> nl \<notin> set (snd kv)"
    and blank: "nl \<notin> set b" "TrimSpace b = []"
  shows "readEnvironment (s\<lparr>reader := header_block kvs @ b @ [nl] @ rest\<rparr>)
           = (None, s\<lparr>reader := rest, env := store_block kvs (env s)\<rparr>)
         \<and> dom (store_block kvs Map.empty) = (\<lambda>kv. TrimSpace (fst kv)) ` set kvs
         \<and> (\<forall>key. store_block kvs (env s) key =
               (case find (\<lambda>kv. TrimSpace (fst kv) = key) (rev kvs) of
                  None \<Rightarrow> env s key
                | Some kv \<Rightarrow> Some (TrimSpace (snd kv))))"
proof -
  have "readEnvironment (s\<lparr>reader := header_block kvs @ (b @ [nl] @ rest)\<rparr>)
      = readEnvironment (s\<lparr>reader := b @ [nl] @ rest, env := store_block kvs (env s)\<rparr>)"
    using lines by (rule readEnvironment_lines)
  also have "\<dots> = readEnvironment ((s\<lparr>env := store_block kvs (env s)\<rparr>)\<lparr>reader := b @ [nl] @ rest\<rparr>)"
    by (simp only: reader_env_update)
  also have "\<dots> = (None, (s\<lparr>env := store_block kvs (env s)\<rparr>)\<lparr>reader := rest\<rparr>)"
    using blank by (rule readEnvironment_blank)
  also have "\<dots> = (None, s\<lparr>reader := rest, env := store_block kvs (env s)\<rparr>)"
    by (simp only: reader_env_update)
  finally have "readEnvironment (s\<lparr>reader := header_block kvs @ b @ [nl] @ rest\<rparr>)
           = (None, s\<lparr>reader := rest, env := store_block kvs (env s)\<rparr>)" .
  moreover have "dom (store_block kvs Map.empty) = (\<lambda>kv. TrimSpace (fst kv)) ` set kvs"
    by (simp add: dom_store_block)
  ultimately show ?thesis by (simp add: store_block_lookup)
qed

theorem readEnvironment_header_block_witness:
  "colon \<notin> set ''agi_network'' \<and> nl \<notin> set ''agi_network'' \<and> nl \<notin> set '' yes''
   \<and> colon \<notin> set ''agi_network_script'' \<and> nl \<notin> set ''agi_network_script''
   \<and> nl \<notin> set '' demo.agi''
   \<and> nl \<notin> set [] \<and> TrimSpace [] = []
   \<and> readEnvironment ((worker_session [])\<lparr>reader :=
         header_block [(''agi_network'', '' yes''), (''agi_network_script'', '' demo.agi'')]
           @ [] @ [nl] @ ''ANSWER''\<rparr>)
       = (None, (worker_session [])\<lparr>reader := ''ANSWER'',
            env := store_block [(''agi_network'', '' yes''), (''agi_network_script'', '' demo.agi'')]
                     (env (worker_session []))\<rparr>)"
proof -
  let ?kvs = "[(''agi_network'', '' yes''), (''agi_network_script'', '' demo.agi'')]"
  have h1: "\<forall>kv\<in>set ?kvs. colon \<notin> set (fst kv) \<and> nl \<notin> set (fst kv) \<and> nl \<notin> set (snd kv)"
    by (simp add: colon_def nl_def)
  have h2: "nl \<notin> set []" by simp
  have h3: "TrimSpace [] = []" by code_simp
  have c: "readEnvironment ((worker_session [])\<lparr>reader := header_block ?kvs @ [] @ [nl] @ ''ANSWER''\<rparr>)
       = (None, (worker_session [])\<lparr>reader := ''ANSWER'',
            env := store_block ?kvs (env (worker_session []))\<rparr>)"
    using readEnvironment_header_block
            [where s = "worker_session []" and rest = "''ANSWER''", OF h1 h2 h3]
    by (rule conjunct1)
  have e: "colon \<notin> set ''agi_network'' \<and> nl \<notin> set ''agi_network'' \<and> nl \<notin> set '' yes''
     \<and> colon \<notin> set ''agi_network_script'' \<and> nl \<notin> set ''agi_network_script''
     \<and> nl \<notin> set '' demo.agi''"
    using h1 by simp
  from e h2 h3 c show ?thesis by blast
qed

text \<open>The header of the example: the script name is stored without the leading blank.\<close>

lemma example_env:
  "env (snd (readEnvironment (worker_session
      (''agi_network: yes'' @ [nl] @ ''agi_network_script: demo.agi'' @ [nl, nl]))))
      ''agi_network_script'' = Some ''demo.agi''"
  by code_simp

text \<open>
  C5. When a header block has a line that is not blank and has no colon, reading the
  environment returns the error \<open>invalid environment line\<close>, the constructor
  \<open>NewWithContext\<close> fails with it, and the connection worker logs it, closes the
  connection and leaves without calling the handler.
\<close>

theorem malformed_header_aborts_session:
  assumes lines: "\<forall>kv\<in>set kvs. colon \<notin> set (fst kv) \<and> nl \<notin> set (fst kv) \<and> nl \<notin> set (snd kv)"
    and bad: "nl \<notin> set bad" "colon \<notin> set bad" "TrimSpace bad \<noteq> []"
  shows "fst (readEnvironment (s\<lparr>reader := header_block kvs @ bad @ [nl] @ rest\<rparr>))
           = Some (Errorf ''invalid environment line: %s'' (TrimSpace bad))
         \<and> NewWithContext parent (header_block kvs @ bad @ [nl] @ rest)
           = Fails (Wrap (Errorf ''invalid environment line: %s'' (TrimSpace bad))
                      ''failed to read AGI environment'')
         \<and> fst (handleConnection srv (header_block kvs @ bad @ [nl] @ rest))
           = [SetDeadline (30 * 1000000000),
              Printf (''Failed to read environment: %v'' @ [nl])
                (Errorf ''invalid environment line: %s'' (TrimSpace bad)),
              ConnClosed, WgDone]
         \<and> HandlerCalled \<notin> set (fst (handleConnection srv (header_block kvs @ bad @ [nl] @ rest)))"
proof -
  let ?input = "header_block kvs @ bad @ [nl] @ rest"
  let ?err = "Errorf ''invalid environment line: %s'' (TrimSpace bad)"
  have r: "fst (readEnvironment (t\<lparr>reader := ?input\<rparr>)) = Some ?err" for t :: AgiSession
  proof -
    have "readEnvironment (t\<lparr>reader := header_block kvs @ (bad @ [nl] @ rest)\<rparr>)
        = readEnvironment (t\<lparr>reader := bad @ [nl] @ rest, env := store_block kvs (env t)\<rparr>)"
      using lines by (rule readEnvironment_lines)
    also have "\<dots> = readEnvironment ((t\<lparr>env := store_block kvs (env t)\<rparr>)\<lparr>reader := bad @ [nl] @ rest\<rparr>)"
      by (simp only: reader_env_update)
    also have "\<dots> = (Some ?err, (t\<lparr>env := store_block kvs (env t)\<rparr>)\<lparr>reader := rest\<rparr>)"
      using bad by (rule readEnvironment_bad)
    finally show ?thesis by simp
  qed
  have w: "worker_session ?input = (worker_session ?input)\<lparr>reader := ?input\<rparr>"
    by (simp add: worker_session_def)
  have hc: "fst (handleConnection srv ?input)
      = [SetDeadline (30 * 1000000000), Printf (''Failed to read environment: %v'' @ [nl]) ?err,
         ConnClosed, WgDone]"
    using r [of "worker_session ?input"] w
    by (cases "readEnvironment (worker_session ?input)") (simp add: handleConnection_def)
  let ?s0 = "\<lparr>reader = ?input, writer = Open [], env = Map.empty, variables = Map.empty,
                debugMode = False, timeout = 30 * 1000000000,
                ctx = Some \<lparr>cancelled = cancelled parent, deadline = deadline parent\<rparr>,
                cancelFunc = Some CancelCtx, stderr = []\<rparr>"
  have "?s0 = ?s0\<lparr>reader := ?input\<rparr>" by simp
  then have "fst (readEnvironment ?s0) = Some ?err" using r [of ?s0] by simp
  then have nw: "NewWithContext parent ?input = Fails (Wrap ?err ''failed to read AGI environment'')"
    by (cases "readEnvironment ?s0") (simp add: NewWithContext_def)
  from r [of s] nw hc show ?thesis by simp
qed

theorem malformed_header_aborts_session_witness:
  "colon \<notin> set ''agi_network'' \<and> nl \<notin> set ''agi_network'' \<and> nl \<notin> set '' yes''
   \<and> nl \<notin> set ''invalid line'' \<and> colon \<notin> set ''invalid line''
   \<and> TrimSpace ''invalid line'' \<noteq> []
   \<and> HandlerCalled \<notin> set (fst (handleConnection closing_server
         (header_block [(''agi_network'', '' yes'')] @ ''invalid line'' @ [nl] @ [nl])))"
proof -
  let ?kvs = "[(''agi_network'', '' yes'')]"
  have h1: "\<forall>kv\<in>set ?kvs. colon \<notin> set (fst kv) \<and> nl \<notin> set (fst kv) \<and> nl \<notin> set (snd kv)"
    by (simp add: colon_def nl_def)
  have h2: "nl \<notin> set ''invalid line''" by (simp add: nl_def)
  have h3: "colon \<notin> set ''invalid line''" by (simp add: colon_def)
  have h4: "TrimSpace ''invalid line'' \<noteq> []" by code_simp
  have c: "HandlerCalled \<notin> set (fst (handleConnection closing_server
         (header_block ?kvs @ ''invalid line'' @ [nl] @ [nl])))"
    using malformed_header_aborts_session
            [where s = "worker_session []" and rest = "[nl]" and srv = closing_server
               and parent = "\<lparr>cancelled = False, deadline = None\<rparr>", OF h1 h2 h3 h4]
    by blast
  have e: "colon \<notin> set ''agi_network'' \<and> nl \<notin> set ''agi_network'' \<and> nl \<notin> set '' yes''"
    using h1 by simp
  from e h2 h3 h4 c show ?thesis by blast
qed

section \<open>The reply parser: properties\<close>

text \<open>
  C1. A well-formed reply line \<open>200 result=<n>[ (<data>)]\<close> should parse to a reply with
  status 1, result \<open>n\<close>, the unwrapped data and the trimmed line as raw text; for the line
  \<open>200 result=1 (hello)\<close> that is status 1, result 1, data \<open>hello\<close>. The parser of the
  codec does not do this: it takes the whole token \<open>result=1\<close> as the integer and returns
  the error of \<open>strconv.Atoi\<close>.
\<close>

theorem parseResponse_result_line_fails:
  "parseResponse ''200 result=1 (hello)'' =
     Fails (Wrap (NumError ''Atoi'' ''result=1'' ErrSyntax) ''failed to parse result'')"
  by code_simp

text \<open>
  The utility parser \<open>ParseAGIResult\<close> of the same package handles the same line as the
  property describes.
\<close>

lemma ParseAGIResult_hello: "ParseAGIResult ''200 result=1 (hello)'' = Returns (1, ''hello'')"
  by code_simp

lemma Atoi_letter: "Atoi (CHR ''r'' # x) = Inl ErrSyntax"
  by (simp add: Atoi_def ParseUint_def is_digit_def)

lemma SplitN_first_byte:
  assumes "c \<noteq> sp"
  shows "SplitN (c # w) [sp] 2 = [c # w] \<or> (\<exists>a b. SplitN (c # w) [sp] 2 = [c # a, b])"
  using assms by (cases "Index w [sp]") (simp_all add: numeral_2_eq_2)

text \<open>
  No line that starts with \<open>200 result=\<close> is accepted: the token handed to
  \<open>strconv.Atoi\<close> starts with the letter \<open>r\<close>.
\<close>

lemma parseResponse_result_token:
  assumes "TrimSpace line = ''200 result='' @ t"
  shows "\<exists>e. parseResponse line = Fails e"
proof -
  define w where "w = ''esult='' @ t"
  have d: "drop 4 (TrimSpace line) = CHR ''r'' # w" using assms by (simp add: w_def)
  have hp: "HasPrefix (TrimSpace line) ''200''" using assms by (simp add: HasPrefix_def)
  have len: "\<not> length (TrimSpace line) < 4" using assms by simp
  have "CHR ''r'' \<noteq> sp" by (simp add: sp_def)
  from SplitN_first_byte [OF this, of w] show ?thesis
  proof
    assume "SplitN (CHR ''r'' # w) [sp] 2 = [CHR ''r'' # w]"
    then show ?thesis using hp len d by (simp add: parseResponse_def)
  next
    assume "\<exists>a b. SplitN (CHR ''r'' # w) [sp] 2 = [CHR ''r'' # a, b]"
    then obtain a b where "SplitN (CHR ''r'' # w) [sp] 2 = [CHR ''r'' # a, b]" by blast
    then show ?thesis using hp len d by (simp add: parseResponse_def Atoi_letter)
  qed
qed

text \<open>
  C2. A line that, once trimmed, does not start with the marker \<open>200\<close> makes the parser
  fail with the error \<open>invalid response\<close>; no reply value is returned.
\<close>

theorem parseResponse_rejects_other_markers:
  assumes "\<not> HasPrefix (TrimSpace line) ''200''"
  shows "parseResponse line = Fails (Errorf ''invalid response: %s'' (TrimSpace line))
         \<and> (\<forall>resp. parseResponse line \<noteq> Returns resp)"
  using assms by (simp add: parseResponse_def)

theorem parseResponse_rejects_other_markers_witness:
  "\<not> HasPrefix (TrimSpace ''500 invalid command'') ''200''
   \<and> parseResponse ''500 invalid command''
       = Fails (Errorf ''invalid response: %s'' ''500 invalid command'')"
proof -
  have h: "\<not> HasPrefix (TrimSpace ''500 invalid command'') ''200''"
    by code_simp
  have t: "TrimSpace ''500 invalid command'' = ''500 invalid command''"
    by code_simp
  show ?thesis
    using h parseResponse_rejects_other_markers [OF h] by (simp only: t simp_thms)
qed

text \<open>
  C6. The parser should be total: a reply or an error for every line, and an error for the
  line \<open>200\<close>. On that line the slice \<open>line[4:]\<close> is taken of a string of length 3, and
  the parser panics.
\<close>

theorem parseResponse_marker_only_panics:
  "parseResponse ''200'' = Panics (SliceBoundsOutOfRange 4 3)"
  by code_simp

section \<open>The convenience operations: properties\<close>

text \<open>
  C3. A command whose reply line is \<open>200 result=-1\<close> should give the empty string and no
  error from \<open>GetOption\<close>, \<open>SayNumber\<close> and \<open>RecordFile\<close>, with the parsed result -1.
  The reply parser rejects the line (it finds no second space-separated part after
  \<open>result=-1\<close>), so \<open>GetOption\<close> returns that error.
\<close>

theorem GetOption_timeout_reply_fails:
  "fst (GetOption (worker_session (''200 result=-1'' @ [nl])) ''menu'' ''123'' 5000)
     = Fails (Errorf ''invalid response format: %s'' ''200 result=-1'')"
  by code_simp

text \<open>\<open>SayNumber\<close> and \<open>RecordFile\<close> return the same error on the same reply.\<close>

lemma SayNumber_timeout_reply:
  "fst (SayNumber (worker_session (''200 result=-1'' @ [nl])) 42 ''#'')
     = Fails (Errorf ''invalid response format: %s'' ''200 result=-1'')"
  by code_simp

lemma RecordFile_timeout_reply:
  "fst (RecordFile (worker_session (''200 result=-1'' @ [nl])) ''msg'' ''wav'' ''#'' 5000 0 1 3)
     = Fails (Errorf ''invalid response format: %s'' ''200 result=-1'')"
  by code_simp

text \<open>
  On a reply the parser accepts, the convention is implemented: a result of -1 gives the
  empty string and no error.
\<close>

lemma GetOption_minus_one:
  "fst (GetOption (worker_session (''200 -1 x'' @ [nl])) ''menu'' ''123'' 5000) = Returns []"
  by code_simp

section \<open>The session: properties\<close>

text \<open>
  C7. Closing a session should succeed any number of times, for a session of the
  standalone constructor and for a session built by the connection worker. The worker's
  session has no cancel function, so a handler that closes the session it receives panics.
\<close>

theorem Close_in_worker_panics:
  "fst (handleConnection closing_server (''agi_network: yes'' @ [nl, nl]))
     = [SetDeadline 30000000000, HandlerCalled, TimeoutCtxCancelled, ConnClosed, WgDone,
        WorkerPanicked NilPointerDereference]"
  by code_simp

text \<open>
  For a session of the standalone constructor the cancel function is set, and closing it
  twice succeeds with the second call changing nothing.
\<close>

lemma readEnvironment_cancelFunc: "cancelFunc (snd (readEnvironment s)) = cancelFunc s"
proof (induction s rule: readEnvironment.induct)
  case (1 s)
  show ?case
    apply (subst readEnvironment.simps)
    using 1 by (auto split: prod.splits option.splits simp: Let_def)
qed

lemma Close_twice:
  assumes "cancelFunc s = Some CancelCtx"
  shows "\<exists>s1. Close s = Returns s1 \<and> Close s1 = Returns s1"
  using assms by (cases "ctx s") (simp_all add: Close_def)

lemma Close_standalone_idempotent:
  assumes "NewWithContext parent stdin = Returns s"
  shows "\<exists>s1. Close s = Returns s1 \<and> Close s1 = Returns s1"
proof -
  let ?s0 = "\<lparr>reader = stdin, writer = Open [], env = Map.empty, variables = Map.empty,
                debugMode = False, timeout = 30 * 1000000000,
                ctx = Some \<lparr>cancelled = cancelled parent, deadline = deadline parent\<rparr>,
                cancelFunc = Some CancelCtx, stderr = []\<rparr>"
  from assms have "s = snd (readEnvironment ?s0)"
    by (auto simp: NewWithContext_def split: prod.splits option.splits)
  then have "cancelFunc s = Some CancelCtx"
    using readEnvironment_cancelFunc [of ?s0] by simp
  then show ?thesis by (rule Close_twice)
qed

text \<open>
  C9. Reading an environment value by a key that the mapping does not hold gives the
  empty string; for a key it holds, the stored value. \<open>GetEnv\<close> has no error result.
\<close>

theorem GetEnv_lookup:
  "(key \<notin> dom (env s) \<longrightarrow> GetEnv s key = [])
   \<and> (env s key = Some v \<longrightarrow> GetEnv s key = v)"
  by (auto simp: GetEnv_def split: option.splits)

theorem GetEnv_lookup_witness:
  "''agi_callerid'' \<notin> dom (env ((worker_session [])\<lparr>env := [''agi_network'' \<mapsto> ''yes'']\<rparr>))
   \<and> GetEnv ((worker_session [])\<lparr>env := [''agi_network'' \<mapsto> ''yes'']\<rparr>) ''agi_callerid'' = []
   \<and> env ((worker_session [])\<lparr>env := [''agi_network'' \<mapsto> ''yes'']\<rparr>) ''agi_network'' = Some ''yes''
   \<and> GetEnv ((worker_session [])\<lparr>env := [''agi_network'' \<mapsto> ''yes'']\<rparr>) ''agi_network'' = ''yes''"
proof -
  let ?s = "(worker_session [])\<lparr>env := [''agi_network'' \<mapsto> ''yes'']\<rparr>"
  have h1: "''agi_callerid'' \<notin> dom (env ?s)" by simp
  have h2: "env ?s ''agi_network'' = Some ''yes''" by simp
  from GetEnv_lookup [of "''agi_callerid''" ?s] h1
  have r1: "GetEnv ?s ''agi_callerid'' = []" by blast
  from GetEnv_lookup [of "''agi_network''" ?s "''yes''"] h2
  have r2: "GetEnv ?s ''agi_network'' = ''yes''" by blast
  from h1 r1 h2 r2 show ?thesis by blast
qed

section \<open>Escaping: properties\<close>

lemma bslash_neq_dquote: "bslash \<noteq> dquote" "dquote \<noteq> bslash"
  by (simp_all add: bslash_def dquote_def)

lemma ReplaceAll_single_append:
  "ReplaceAll (xs @ ys) [a] new = ReplaceAll xs [a] new @ ReplaceAll ys [a] new"
  by (induction xs) auto

lemma EscapeString_Nil: "EscapeString [] = []"
  by (simp add: EscapeString_def)

text \<open>Escaping works byte by byte: a backslash and a quote each get a backslash in front.\<close>

lemma EscapeString_Cons:
  "EscapeString (c # s) =
     (if c = bslash then [bslash, bslash] else if c = dquote then [bslash, dquote] else [c])
       @ EscapeString s"
  using bslash_neq_dquote
  by (simp add: EscapeString_def ReplaceAll_single_append [of "[x, y]" for x y, simplified])

text \<open>
  An escaped string never starts with a bare quote, so a backslash followed by a quote in
  it is always the escape of a quote and never the second half of an escaped backslash.
\<close>

lemma EscapeString_not_quote_first: "EscapeString s \<noteq> dquote # t"
  using bslash_neq_dquote by (cases s) (auto simp: EscapeString_Nil EscapeString_Cons)

lemma unescape_quotes:
  "ReplaceAll (EscapeString s) [bslash, dquote] [dquote] = ReplaceAll s [bslash] [bslash, bslash]"
proof (induction s)
  case Nil
  show ?case by (simp add: EscapeString_Nil)
next
  case (Cons c s)
  have nq: "\<not> prefix [dquote] (EscapeString s)"
    using EscapeString_not_quote_first [of s] by (auto simp: prefix_def)
  show ?case
    using Cons.IH nq bslash_neq_dquote by (simp add: EscapeString_Cons)
qed

lemma unescape_backslashes:
  "ReplaceAll (ReplaceAll s [bslash] [bslash, bslash]) [bslash, bslash] [bslash] = s"
  by (induction s) simp_all

text \<open>
  C10. Unescaping an escaped string gives the string back, for every string:
  \<open>UnescapeString(EscapeString(s)) = s\<close>.
\<close>

theorem UnescapeString_EscapeString: "UnescapeString (EscapeString s) = s"
  by (simp add: UnescapeString_def unescape_quotes unescape_backslashes)

end
